theory Spec2Isabelle
  imports Main "HOL-Library.Sublist" "HOL-Library.Word"
begin

section \<open>Go strings\<close>

text \<open>
  A Go \<^verbatim>\<open>string\<close> is a sequence of bytes, as \<^typ>\<open>string\<close> is. The three functions of
  package \<^verbatim>\<open>strings\<close> that \<^verbatim>\<open>processCharacter\<close> calls are written out below.
\<close>

text \<open>\<^verbatim>\<open>len(s) >= len(prefix) && s[:len(prefix)] == prefix\<close>\<close>

definition HasPrefix :: "string \<Rightarrow> string \<Rightarrow> bool" where
  "HasPrefix s pre = (length pre \<le> length s \<and> take (length pre) s = pre)"

text \<open>\<^verbatim>\<open>strings.TrimPrefix\<close>: \<^verbatim>\<open>s[len(prefix):]\<close> when \<^verbatim>\<open>s\<close> has the prefix, \<^verbatim>\<open>s\<close> otherwise.\<close>

definition TrimPrefix :: "string \<Rightarrow> string \<Rightarrow> string" where
  "TrimPrefix s pre = (if HasPrefix s pre then drop (length pre) s else s)"

text \<open>
  \<^verbatim>\<open>strings.Contains(s, substr)\<close>: whether \<^verbatim>\<open>substr\<close> occurs at some offset of \<^verbatim>\<open>s\<close>
  (the offset \<^verbatim>\<open>len(s)\<close> included, where only the empty string occurs).
\<close>

fun Contains :: "string \<Rightarrow> string \<Rightarrow> bool" where
  "Contains [] substr = (substr = [])"
| "Contains (c # s) substr = (HasPrefix (c # s) substr \<or> Contains s substr)"

text \<open>
  \<^verbatim>\<open>strings.ToLower\<close> on a string of ASCII bytes adds \<^verbatim>\<open>'a' - 'A'\<close> to each byte from
  \<^verbatim>\<open>'A'\<close> to \<^verbatim>\<open>'Z'\<close> and keeps every other byte. Key names are ASCII: a byte from 0x80 on
  is kept here, where Go decodes UTF-8, and \<open>isASCII\<close> marks the strings on which the
  two agree.
\<close>

definition toLowerByte :: "char \<Rightarrow> char" where
  "toLowerByte c =
     (let n = (of_char c :: nat) in if 65 \<le> n \<and> n \<le> 90 then char_of (n + 32) else c)"

definition ToLower :: "string \<Rightarrow> string" where
  "ToLower s = map toLowerByte s"

definition isASCII :: "string \<Rightarrow> bool" where
  "isASCII s = list_all (\<lambda>c. (of_char c :: nat) < 128) s"

section \<open>processCharacter\<close>

text \<open>The \<^verbatim>\<open>switch key\<close> statement: seven cases, no default, so any other key is kept.\<close>

definition keySwitch :: "string \<Rightarrow> string" where
  "keySwitch key =
     (if key = ''space'' then '' ''
      else if key = ''slash'' then ''/''
      else if key = ''minus'' then ''-''
      else if key = ''dot'' then ''.''
      else if key = ''comma'' then '',''
      else if key = ''SEMICOLON'' then '':''
      else if key = ''semicolon'' then '';''
      else key)"

definition processCharacter :: "string \<Rightarrow> bool \<Rightarrow> string \<times> bool" where
  "processCharacter key capNext =
     (if Contains key ''LEFTSHIFT'' \<or> Contains key ''RIGHTSHIFT'' then ('''', True)
      else
        let key1 = TrimPrefix key ''KEY_'';
            (key2, capNext2) = (if \<not> capNext then (ToLower key1, capNext) else (key1, False))
        in (keySwitch key2, capNext2))"

section \<open>processEvents\<close>

text \<open>
  \<^verbatim>\<open>evdev.InputEvent\<close>: \<^verbatim>\<open>Type\<close> and \<^verbatim>\<open>Code\<close> are \<^verbatim>\<open>uint16\<close>, \<^verbatim>\<open>Value\<close> is \<^verbatim>\<open>int32\<close> (only
  compared with 1, so its sign plays no role). The \<^verbatim>\<open>Time\<close> field is never read.
\<close>

record InputEvent =
  Type :: "16 word"
  Code :: "16 word"
  Value :: "32 word"

definition EV_KEY :: "16 word" where
  "EV_KEY = 1"

text \<open>
  \<^verbatim>\<open>evdev.KEY\<close>, a \<^verbatim>\<open>map[int]string\<close> of the evdev library, is a parameter of the model.
\<close>

type_synonym keymap = "int \<rightharpoonup> string"

text \<open>Durations and instants are counted in nanoseconds, as \<^verbatim>\<open>time.Duration\<close> does.\<close>

definition Millisecond :: int where
  "Millisecond = 1000000"

definition timerDuration :: int where
  "timerDuration = 10 * Millisecond"

text \<open>
  The variables of \<^verbatim>\<open>processEvents\<close> that live across iterations of its loop, and the
  timer it was given: \<open>timeout\<close> is the instant the timer was last set to fire at.
\<close>

record segmenter =
  barcode :: string
  capNext :: bool
  key :: string
  timeout :: int

text \<open>Go's zero values; the timer comes from the caller, already set.\<close>

definition initial :: "int \<Rightarrow> segmenter" where
  "initial deadline = \<lparr>barcode = [], capNext = False, key = [], timeout = deadline\<rparr>"

text \<open>The case of the \<^verbatim>\<open>select\<close> that is taken: an event was received, or the timer fired.\<close>

datatype ready = Event InputEvent | Expired

text \<open>
  One iteration of the loop, taken at the instant \<open>now\<close>. The result is the new state
  and the strings sent on \<^verbatim>\<open>scannedBarcode\<close> during the iteration.
\<close>

definition selectCase :: "keymap \<Rightarrow> int \<Rightarrow> segmenter \<Rightarrow> ready \<Rightarrow> segmenter \<times> string list" where
  "selectCase KEY now s r =
     (case r of
        Event ev \<Rightarrow>
          if Value ev = 1 \<and> Type ev = EV_KEY then
            let k = (case KEY (uint (Code ev)) of Some val \<Rightarrow> val | None \<Rightarrow> ''?'');
                (k', capNext') = processCharacter k (capNext s)
            in (s\<lparr>key := k', capNext := capNext', barcode := barcode s @ k',
                    timeout := now + timerDuration\<rparr>, [])
          else (s, [])
      | Expired \<Rightarrow>
          if length (barcode s) > 0 then (s\<lparr>capNext := False, barcode := []\<rparr>, [barcode s])
          else (s, []))"

text \<open>
  The loop never ends; \<open>processEvents\<close> runs it over a finite sequence of iterations,
  each with its instant, and collects what was sent.
\<close>

fun processEvents :: "keymap \<Rightarrow> segmenter \<Rightarrow> (int \<times> ready) list \<Rightarrow> segmenter \<times> string list" where
  "processEvents KEY s [] = (s, [])"
| "processEvents KEY s ((now, r) # rs) =
     (let (s', out) = selectCase KEY now s r;
          (s'', outs) = processEvents KEY s' rs
      in (s'', out @ outs))"

text \<open>The two expressions of the loop body that the statements below name.\<close>

definition isKeyDown :: "InputEvent \<Rightarrow> bool" where
  "isKeyDown ev = (Value ev = 1 \<and> Type ev = EV_KEY)"

definition symbolicKey :: "keymap \<Rightarrow> InputEvent \<Rightarrow> string" where
  "symbolicKey KEY ev = (case KEY (uint (Code ev)) of Some val \<Rightarrow> val | None \<Rightarrow> ''?'')"

text \<open>A sequence of received events, each with the instant of its iteration.\<close>

definition events :: "(int \<times> InputEvent) list \<Rightarrow> (int \<times> ready) list" where
  "events evs = map (\<lambda>(t, ev). (t, Event ev)) evs"

section \<open>The words of the specification\<close>

text \<open>A key "denotes a shift key" when its name has one of the two substrings.\<close>

definition isShift :: "string \<Rightarrow> bool" where
  "isShift k = (sublist ''LEFTSHIFT'' k \<or> sublist ''RIGHTSHIFT'' k)"

text \<open>The substitution table of the specification, from bare token to literal character.\<close>

definition substitutionTable :: "(string \<times> string) list" where
  "substitutionTable =
     [(''space'', '' ''), (''slash'', ''/''), (''minus'', ''-''), (''dot'', ''.''),
      (''comma'', '',''), (''semicolon'', '';''), (''SEMICOLON'', '':'')]"

definition substitute :: "string \<Rightarrow> string" where
  "substitute tok = (case map_of substitutionTable tok of Some lit \<Rightarrow> lit | None \<Rightarrow> tok)"

text \<open>
  The bare token: the name without the prefix, as it is when the character is to be
  capitalised and in lower case otherwise.
\<close>

definition bareToken :: "string \<Rightarrow> bool \<Rightarrow> string" where
  "bareToken k cap = (if cap then TrimPrefix k ''KEY_'' else ToLower (TrimPrefix k ''KEY_''))"

text \<open>
  A key's base character: "the symbolic name with the prefix stripped, lower-cased, with
  substitution-table tokens replaced by their literal characters".
\<close>

definition baseCharacter :: "string \<Rightarrow> string" where
  "baseCharacter k = substitute (ToLower (TrimPrefix k ''KEY_''))"

section \<open>Sample input\<close>

text \<open>
  An excerpt of the key table, with the codes of the Linux input layer, and the three
  actions of a key as events.
\<close>

definition KEY_excerpt :: keymap where
  "KEY_excerpt = map_of
     [(12, ''KEY_MINUS''), (18, ''KEY_E''), (23, ''KEY_I''), (24, ''KEY_O''),
      (28, ''KEY_ENTER''), (30, ''KEY_A''), (35, ''KEY_H''), (38, ''KEY_L''),
      (39, ''KEY_SEMICOLON''), (42, ''KEY_LEFTSHIFT''), (48, ''KEY_B''), (51, ''KEY_COMMA''),
      (52, ''KEY_DOT''), (53, ''KEY_SLASH''), (54, ''KEY_RIGHTSHIFT''), (57, ''KEY_SPACE'')]"

definition keyUp :: "16 word \<Rightarrow> InputEvent" where
  "keyUp c = \<lparr>Type = EV_KEY, Code = c, Value = 0\<rparr>"

definition keyDown :: "16 word \<Rightarrow> InputEvent" where
  "keyDown c = \<lparr>Type = EV_KEY, Code = c, Value = 1\<rparr>"

definition keyRepeat :: "16 word \<Rightarrow> InputEvent" where
  "keyRepeat c = \<lparr>Type = EV_KEY, Code = c, Value = 2\<rparr>"

section \<open>Strings: basic facts\<close>

lemma HasPrefix_prefix: "HasPrefix s pre \<longleftrightarrow> prefix pre s"
  unfolding HasPrefix_def prefix_def
  by (metis append_eq_conv_conj append_take_drop_id length_append le_add1)

lemma Contains_sublist: "Contains s sub \<longleftrightarrow> sublist sub s"
proof (induction s)
  case Nil
  show ?case by simp
next
  case (Cons c s)
  show ?case
  proof (cases sub)
    case Nil
    then show ?thesis by (simp add: HasPrefix_def)
  next
    case (Cons d ds)
    with Cons.IH show ?thesis
      by (simp add: HasPrefix_prefix sublist_Cons_right)
  qed
qed

section \<open>processCharacter: the two branches\<close>

lemma isShift_Contains: "isShift k \<longleftrightarrow> Contains k ''LEFTSHIFT'' \<or> Contains k ''RIGHTSHIFT''"
  by (simp add: isShift_def Contains_sublist)

lemma processCharacter_shift: "isShift k \<Longrightarrow> processCharacter k c = ([], True)"
  by (simp add: processCharacter_def isShift_Contains)

lemma processCharacter_plain:
  "\<not> isShift k \<Longrightarrow> processCharacter k c = (keySwitch (bareToken k c), False)"
  by (simp add: processCharacter_def isShift_Contains bareToken_def Let_def)

lemma keySwitch_substitute: "keySwitch tok = substitute tok"
  by (simp add: keySwitch_def substitute_def substitutionTable_def)

section \<open>Lower case\<close>

lemma toLowerByte_idem: "toLowerByte (toLowerByte c) = toLowerByte c"
proof -
  let ?n = "of_char c :: nat"
  show ?thesis
  proof (cases "65 \<le> ?n \<and> ?n \<le> 90")
    case True
    then have "of_char (char_of (?n + 32)) = ?n + 32" by simp
    with True show ?thesis by (simp add: toLowerByte_def Let_def)
  next
    case False
    then show ?thesis by (auto simp: toLowerByte_def Let_def)
  qed
qed

lemma ToLower_idem: "ToLower (ToLower s) = ToLower s"
  by (simp add: ToLower_def toLowerByte_idem)

lemma ToLower_append: "ToLower (a @ b) = ToLower a @ ToLower b"
  by (simp add: ToLower_def)

lemma ToLower_concat: "ToLower (concat xs) = concat (map ToLower xs)"
  by (induction xs) (simp_all add: ToLower_append, simp add: ToLower_def)

lemma ToLower_literals:
  "ToLower '' '' = '' ''" "ToLower ''/'' = ''/''" "ToLower ''-'' = ''-''" "ToLower ''.'' = ''.''"
  "ToLower '','' = '',''" "ToLower '';'' = '';''" "ToLower '':'' = '':''"
  by code_simp+

lemma ToLower_substitute: "ToLower (substitute (ToLower tok)) = substitute (ToLower tok)"
  by (simp add: substitute_def substitutionTable_def ToLower_literals ToLower_idem)

section \<open>One iteration of the loop\<close>

lemma selectCase_other: "\<not> isKeyDown ev \<Longrightarrow> selectCase KEY now s (Event ev) = (s, [])"
  by (auto simp: selectCase_def isKeyDown_def)

lemma selectCase_down:
  "isKeyDown ev \<Longrightarrow>
   selectCase KEY now s (Event ev) =
     (let (k', c') = processCharacter (symbolicKey KEY ev) (capNext s)
      in (s\<lparr>key := k', capNext := c', barcode := barcode s @ k', timeout := now + timerDuration\<rparr>, []))"
  by (simp add: selectCase_def isKeyDown_def symbolicKey_def)

lemma selectCase_expired:
  "selectCase KEY now s Expired =
     (if barcode s = [] then (s, []) else (s\<lparr>capNext := False, barcode := []\<rparr>, [barcode s]))"
  by (simp add: selectCase_def)

lemma processEvents_append:
  "processEvents KEY s (xs @ ys) =
     (let (s', o1) = processEvents KEY s xs; (s'', o2) = processEvents KEY s' ys in (s'', o1 @ o2))"
  by (induction xs arbitrary: s) (auto simp: Let_def split: prod.splits)

lemma processEvents_single: "processEvents KEY s [(now, r)] = selectCase KEY now s r"
  by (simp add: Let_def split: prod.splits)

section \<open>Running the loop\<close>

lemma selectCase_event_out: "snd (selectCase KEY now s (Event ev)) = []"
  by (cases "isKeyDown ev") (simp_all add: selectCase_down selectCase_other split: prod.splits)

lemma selectCase_event_barcode:
  "\<exists>rest. barcode (fst (selectCase KEY now s (Event ev))) = barcode s @ rest"
  by (cases "isKeyDown ev") (simp_all add: selectCase_down selectCase_other split: prod.splits)

lemma selectCase_out_nonempty: "b \<in> set (snd (selectCase KEY now s r)) \<Longrightarrow> b \<noteq> []"
  by (cases r) (simp_all add: selectCase_event_out selectCase_expired split: if_splits)

lemma processEvents_out_nonempty: "b \<in> set (snd (processEvents KEY s rs)) \<Longrightarrow> b \<noteq> []"
proof (induction rs arbitrary: s)
  case Nil
  then show ?case by simp
next
  case (Cons x rs)
  obtain now r where x: "x = (now, r)" by (cases x)
  obtain s' out where st: "selectCase KEY now s r = (s', out)" by (cases "selectCase KEY now s r")
  from Cons.prems x st have "b \<in> set out \<or> b \<in> set (snd (processEvents KEY s' rs))"
    by (auto simp: Let_def split: prod.splits)
  then show ?case
  proof
    assume "b \<in> set out"
    with st selectCase_out_nonempty[of b KEY now s r] show ?thesis by simp
  next
    assume "b \<in> set (snd (processEvents KEY s' rs))"
    then show ?thesis by (rule Cons.IH)
  qed
qed

lemma events_Nil: "events [] = []"
  by (simp add: events_def)

lemma events_Cons: "events ((t, ev) # evs) = (t, Event ev) # events evs"
  by (simp add: events_def)

lemma events_append: "events (xs @ ys) = events xs @ events ys"
  by (simp add: events_def)

lemma processEvents_events_out: "snd (processEvents KEY s (events evs)) = []"
proof (induction evs arbitrary: s)
  case Nil
  show ?case by (simp add: events_Nil)
next
  case (Cons x evs)
  obtain t ev where x: "x = (t, ev)" by (cases x)
  obtain s' out where st: "selectCase KEY t s (Event ev) = (s', out)"
    by (cases "selectCase KEY t s (Event ev)")
  with selectCase_event_out[of KEY t s ev] have "out = []" by simp
  with x st Cons.IH[of s'] show ?case
    by (simp add: events_Cons Let_def split: prod.splits)
qed

lemma processEvents_events_barcode:
  "\<exists>rest. barcode (fst (processEvents KEY s (events evs))) = barcode s @ rest"
proof (induction evs arbitrary: s)
  case Nil
  show ?case by (simp add: events_Nil)
next
  case (Cons x evs)
  obtain t ev where x: "x = (t, ev)" by (cases x)
  obtain s' out where st: "selectCase KEY t s (Event ev) = (s', out)"
    by (cases "selectCase KEY t s (Event ev)")
  from selectCase_event_barcode[of KEY t s ev] st
  obtain r1 where r1: "barcode s' = barcode s @ r1" by auto
  from Cons.IH[of s'] obtain r2
    where r2: "barcode (fst (processEvents KEY s' (events evs))) = barcode s' @ r2" by blast
  have "fst (processEvents KEY s (events (x # evs))) = fst (processEvents KEY s' (events evs))"
    using x st by (simp add: events_Cons Let_def split: prod.splits)
  with r1 r2 show ?case by simp
qed

lemma processEvents_ignored:
  "(\<And>t ev. (t, ev) \<in> set evs \<Longrightarrow> \<not> isKeyDown ev) \<Longrightarrow> processEvents KEY s (events evs) = (s, [])"
proof (induction evs)
  case Nil
  show ?case by (simp add: events_Nil)
next
  case (Cons x evs)
  obtain t ev where x: "x = (t, ev)" by (cases x)
  have "(t, ev) \<in> set (x # evs)" using x by simp
  then have "\<not> isKeyDown ev" by (rule Cons.prems)
  moreover have "processEvents KEY s (events evs) = (s, [])"
  proof (rule Cons.IH)
    fix t' ev' assume "(t', ev') \<in> set evs"
    then have "(t', ev') \<in> set (x # evs)" by simp
    then show "\<not> isKeyDown ev'" by (rule Cons.prems)
  qed
  ultimately show ?case using x
    by (simp add: events_Cons selectCase_other)
qed

lemma then_Expired:
  "processEvents KEY s (rs @ [(t, Expired)]) =
     (let (s', out) = processEvents KEY s rs
      in if barcode s' = [] then (s', out)
         else (s'\<lparr>capNext := False, barcode := []\<rparr>, out @ [barcode s']))"
  by (simp add: processEvents_append selectCase_expired Let_def split: prod.splits)

section \<open>Sample keys and events, evaluated\<close>

lemma isShift_samples:
  "isShift ''KEY_LEFTSHIFT''" "isShift ''KEY_RIGHTSHIFT''"
  "\<not> isShift ''KEY_A''" "\<not> isShift ''KEY_B''" "\<not> isShift ''KEY_H''" "\<not> isShift ''KEY_I''"
  "\<not> isShift ''KEY_MINUS''" "\<not> isShift ''KEY_ENTER''" "\<not> isShift ''KEY_SEMICOLON''"
  "\<not> isShift ''?''"
  by code_simp+

lemma processCharacter_samples:
  "processCharacter ''KEY_A'' False = (''a'', False)"
  "processCharacter ''KEY_A'' True = (''A'', False)"
  "processCharacter ''KEY_B'' False = (''b'', False)"
  "processCharacter ''KEY_H'' True = (''H'', False)"
  "processCharacter ''KEY_I'' False = (''i'', False)"
  "processCharacter ''KEY_MINUS'' False = (''-'', False)"
  "processCharacter ''KEY_ENTER'' False = (''enter'', False)"
  by code_simp+

lemma processCharacter_placeholder: "processCharacter ''?'' c = (''?'', False)"
proof (cases c)
  case True
  have "processCharacter ''?'' True = (''?'', False)" by code_simp
  with True show ?thesis by simp
next
  case False
  have "processCharacter ''?'' False = (''?'', False)" by code_simp
  with False show ?thesis by simp
qed

lemma processCharacter_shift_samples:
  "processCharacter ''KEY_LEFTSHIFT'' c = ([], True)"
  "processCharacter ''KEY_RIGHTSHIFT'' c = ([], True)"
  by (simp_all add: processCharacter_shift isShift_samples)

lemma isKeyDown_samples:
  "isKeyDown (keyDown c)" "\<not> isKeyDown (keyUp c)" "\<not> isKeyDown (keyRepeat c)"
  by (simp_all add: isKeyDown_def keyDown_def keyUp_def keyRepeat_def)

lemma Code_samples: "Code (keyDown c) = c" "Code (keyUp c) = c" "Code (keyRepeat c) = c"
  by (simp_all add: keyDown_def keyUp_def keyRepeat_def)

lemma KEY_excerpt_samples:
  "KEY_excerpt 12 = Some ''KEY_MINUS''" "KEY_excerpt 23 = Some ''KEY_I''"
  "KEY_excerpt 28 = Some ''KEY_ENTER''" "KEY_excerpt 30 = Some ''KEY_A''"
  "KEY_excerpt 35 = Some ''KEY_H''" "KEY_excerpt 42 = Some ''KEY_LEFTSHIFT''"
  "KEY_excerpt 48 = Some ''KEY_B''" "KEY_excerpt 54 = Some ''KEY_RIGHTSHIFT''"
  "KEY_excerpt 999 = None"
  by (simp_all add: KEY_excerpt_def)

lemma symbolicKey_samples:
  "symbolicKey KEY_excerpt (keyDown 12) = ''KEY_MINUS''"
  "symbolicKey KEY_excerpt (keyDown 23) = ''KEY_I''"
  "symbolicKey KEY_excerpt (keyDown 28) = ''KEY_ENTER''"
  "symbolicKey KEY_excerpt (keyDown 30) = ''KEY_A''"
  "symbolicKey KEY_excerpt (keyDown 35) = ''KEY_H''"
  "symbolicKey KEY_excerpt (keyDown 42) = ''KEY_LEFTSHIFT''"
  "symbolicKey KEY_excerpt (keyDown 48) = ''KEY_B''"
  "symbolicKey KEY_excerpt (keyDown 54) = ''KEY_RIGHTSHIFT''"
  "symbolicKey KEY_excerpt (keyDown 999) = ''?''"
  by (simp_all add: symbolicKey_def Code_samples KEY_excerpt_samples)

section \<open>The claims\<close>

text \<open>
  C9. For every key string and every incoming \<open>capNext\<close>, \<open>processCharacter\<close> returns
  the flag true exactly when the key contains \<open>LEFTSHIFT\<close> or \<open>RIGHTSHIFT\<close> as a substring.
  So a key that is not a shift key, the placeholder among them, returns false, and a
  second shift key after a first leaves the flag true.
\<close>

theorem processCharacter_nextCapNext:
  "snd (processCharacter k c) = isShift k
   \<and> (\<not> isShift k \<longrightarrow> snd (processCharacter k c) = False)
   \<and> snd (processCharacter ''?'' c) = False
   \<and> (isShift k1 \<and> isShift k2 \<longrightarrow>
        snd (processCharacter k2 (snd (processCharacter k1 c))) = True)"
proof -
  have flag: "snd (processCharacter k' c') = isShift k'" for k' c'
    by (cases "isShift k'") (simp_all add: processCharacter_shift processCharacter_plain)
  have "\<not> isShift ''?''" by (rule isShift_samples)
  with flag show ?thesis by simp
qed

theorem processCharacter_nextCapNext_witness:
  "isShift ''KEY_LEFTSHIFT'' \<and> isShift ''KEY_RIGHTSHIFT'' \<and> \<not> isShift ''KEY_A''
   \<and> snd (processCharacter ''KEY_A'' True) = False
   \<and> snd (processCharacter ''KEY_RIGHTSHIFT''
             (snd (processCharacter ''KEY_LEFTSHIFT'' False))) = True"
proof -
  note h = isShift_samples(1) isShift_samples(2) isShift_samples(3)
  from processCharacter_nextCapNext[of "''KEY_A''" True "''KEY_LEFTSHIFT''" "''KEY_RIGHTSHIFT''"] h
  have a: "snd (processCharacter ''KEY_A'' True) = False" by blast
  from processCharacter_nextCapNext[of "''KEY_A''" False "''KEY_LEFTSHIFT''" "''KEY_RIGHTSHIFT''"] h
  have b: "snd (processCharacter ''KEY_RIGHTSHIFT''
             (snd (processCharacter ''KEY_LEFTSHIFT'' False))) = True" by blast
  from h a b show ?thesis by blast
qed

text \<open>
  C2. A barcode is never sent empty. When the timer fires, something is sent exactly
  when the buffer is not empty, and it is the buffer; with an empty buffer the state is
  as before and nothing is sent. No run of the loop ever sends an empty string.
\<close>

theorem never_emitted_empty:
  "(snd (selectCase KEY now s Expired) \<noteq> [] \<longleftrightarrow> barcode s \<noteq> [])
   \<and> (barcode s \<noteq> [] \<longrightarrow> snd (selectCase KEY now s Expired) = [barcode s])
   \<and> (barcode s = [] \<longrightarrow> selectCase KEY now s Expired = (s, []))
   \<and> (\<forall>b \<in> set (snd (processEvents KEY s rs)). b \<noteq> [])"
  using processEvents_out_nonempty[of _ KEY s rs] by (auto simp: selectCase_expired)

theorem never_emitted_empty_witness:
  "barcode (initial 10000000) = []
   \<and> selectCase KEY_excerpt 10000000 (initial 10000000) Expired = (initial 10000000, [])
   \<and> barcode \<lparr>barcode = ''a'', capNext = False, key = ''a'', timeout = 30000000\<rparr> \<noteq> []
   \<and> snd (selectCase KEY_excerpt 30000000
             \<lparr>barcode = ''a'', capNext = False, key = ''a'', timeout = 30000000\<rparr> Expired) = [''a'']
   \<and> ''a'' \<in> set (snd (processEvents KEY_excerpt (initial 10000000)
                          [(20000000, Event (keyDown 30)), (30000000, Expired)]))
   \<and> ''a'' \<noteq> []"
proof -
  let ?s = "\<lparr>barcode = ''a'', capNext = False, key = ''a'', timeout = 30000000\<rparr>"
  let ?rs = "[(20000000, Event (keyDown 30)), (30000000, Expired)]"
  have e: "barcode (initial 10000000) = []" by (simp add: initial_def)
  have n: "barcode ?s \<noteq> []" by simp
  have m: "''a'' \<in> set (snd (processEvents KEY_excerpt (initial 10000000) ?rs))"
    by (simp add: selectCase_down selectCase_expired isKeyDown_samples symbolicKey_samples
        processCharacter_samples initial_def)
  from never_emitted_empty[of KEY_excerpt 10000000 "initial 10000000" ?rs] e m
  have 1: "selectCase KEY_excerpt 10000000 (initial 10000000) Expired = (initial 10000000, [])"
    and 3: "''a'' \<noteq> []" by blast+
  from never_emitted_empty[of KEY_excerpt 30000000 ?s "[]"] n
  have 2: "snd (selectCase KEY_excerpt 30000000 ?s Expired) = [''a'']" by simp
  from e n m 1 2 3 show ?thesis by blast
qed

text \<open>
  C5. A received event that is not a key-down (its value is not 1, as for a release or
  a repeat, or its type is not \<open>EV_KEY\<close>) leaves the whole state as it was: buffer, flag
  and the instant the timer is set to. So a key-down of \<open>KEY_A\<close> followed only by repeats
  keeps the timer where the key-down put it, and the timer then sends \<open>a\<close>.
\<close>

theorem other_events_ignored:
  "(\<not> isKeyDown ev \<longrightarrow> selectCase KEY now s (Event ev) = (s, []))
   \<and> ((\<forall>(t, e) \<in> set reps. Value e = 2) \<longrightarrow>
        processEvents KEY s (events reps) = (s, []))
   \<and> (isKeyDown down \<and> symbolicKey KEY down = ''KEY_A'' \<and> (\<forall>(t, e) \<in> set reps. Value e = 2) \<longrightarrow>
        processEvents KEY (initial d) ((t0, Event down) # events reps)
          = (\<lparr>barcode = ''a'', capNext = False, key = ''a'', timeout = t0 + timerDuration\<rparr>, [])
        \<and> processEvents KEY (initial d) ((t0, Event down) # events reps @ [(t1, Expired)])
          = (\<lparr>barcode = [], capNext = False, key = ''a'', timeout = t0 + timerDuration\<rparr>, [''a'']))"
proof -
  have rep: "processEvents KEY s' (events reps) = (s', [])"
    if "\<forall>(t, e) \<in> set reps. Value e = 2" for s'
  proof (rule processEvents_ignored)
    fix t e assume "(t, e) \<in> set reps"
    with that have "Value e = 2" by auto
    then show "\<not> isKeyDown e" by (simp add: isKeyDown_def)
  qed
  have run: "processEvents KEY (initial d) ((t0, Event down) # events reps)
          = (\<lparr>barcode = ''a'', capNext = False, key = ''a'', timeout = t0 + timerDuration\<rparr>, [])
        \<and> processEvents KEY (initial d) ((t0, Event down) # events reps @ [(t1, Expired)])
          = (\<lparr>barcode = [], capNext = False, key = ''a'', timeout = t0 + timerDuration\<rparr>, [''a''])"
    if dn: "isKeyDown down" and a: "symbolicKey KEY down = ''KEY_A''"
      and r: "\<forall>(t, e) \<in> set reps. Value e = 2"
  proof -
    let ?s1 = "\<lparr>barcode = ''a'', capNext = False, key = ''a'', timeout = t0 + timerDuration\<rparr>"
    have first: "selectCase KEY t0 (initial d) (Event down) = (?s1, [])"
      using dn a by (simp add: selectCase_down initial_def processCharacter_samples)
    have mid: "processEvents KEY (initial d) ((t0, Event down) # events reps) = (?s1, [])"
      using first rep[OF r, of ?s1] by simp
    have "processEvents KEY (initial d) (((t0, Event down) # events reps) @ [(t1, Expired)])
            = (\<lparr>barcode = [], capNext = False, key = ''a'', timeout = t0 + timerDuration\<rparr>, [''a''])"
      unfolding then_Expired mid by simp
    with mid show ?thesis by simp
  qed
  from rep[of s] run selectCase_other[of ev KEY now s] show ?thesis by blast
qed

theorem other_events_ignored_witness:
  "\<not> isKeyDown (keyUp 30)
   \<and> selectCase KEY_excerpt 25000000
        \<lparr>barcode = ''a'', capNext = False, key = ''a'', timeout = 30000000\<rparr> (Event (keyUp 30))
      = (\<lparr>barcode = ''a'', capNext = False, key = ''a'', timeout = 30000000\<rparr>, [])
   \<and> processEvents KEY_excerpt (initial 10000000)
        ((20000000, Event (keyDown 30))
         # events [(21000000, keyRepeat 30), (22000000, keyRepeat 30)] @ [(30000000, Expired)])
      = (\<lparr>barcode = [], capNext = False, key = ''a'', timeout = 30000000\<rparr>, [''a''])"
proof -
  let ?reps = "[(21000000, keyRepeat 30), (22000000, keyRepeat 30)]"
  have u: "\<not> isKeyDown (keyUp 30)" by (rule isKeyDown_samples)
  have d: "isKeyDown (keyDown 30)" by (rule isKeyDown_samples)
  have a: "symbolicKey KEY_excerpt (keyDown 30) = ''KEY_A''" by (rule symbolicKey_samples)
  have r: "\<forall>(t, e) \<in> set ?reps. Value e = 2" by (simp add: keyRepeat_def)
  have t: "20000000 + timerDuration = 30000000" by (simp add: timerDuration_def Millisecond_def)
  from other_events_ignored[of "keyUp 30" KEY_excerpt 25000000
      "\<lparr>barcode = ''a'', capNext = False, key = ''a'', timeout = 30000000\<rparr>"] u
  have 1: "selectCase KEY_excerpt 25000000
        \<lparr>barcode = ''a'', capNext = False, key = ''a'', timeout = 30000000\<rparr> (Event (keyUp 30))
      = (\<lparr>barcode = ''a'', capNext = False, key = ''a'', timeout = 30000000\<rparr>, [])" by blast
  from other_events_ignored[of _ KEY_excerpt _ _ ?reps "keyDown 30" 10000000 20000000 30000000] d a r
  have 2: "processEvents KEY_excerpt (initial 10000000)
        ((20000000, Event (keyDown 30)) # events ?reps @ [(30000000, Expired)])
      = (\<lparr>barcode = [], capNext = False, key = ''a'', timeout = 20000000 + timerDuration\<rparr>, [''a''])"
    by blast
  from u 1 2 t show ?thesis by simp
qed

text \<open>
  C6. A key-down whose code is not in the key table does not stop anything: the key is
  the placeholder \<open>?\<close>, \<open>processCharacter\<close> returns it as it is, it is appended to the
  buffer, and the barcode sent at the next firing of the timer has it at that position,
  after what the buffer held and before what later events add.
\<close>

theorem unmapped_code_placeholder:
  assumes "isKeyDown ev" and "KEY (uint (Code ev)) = None"
  shows "symbolicKey KEY ev = ''?''
   \<and> processCharacter ''?'' c = (''?'', False)
   \<and> selectCase KEY now s (Event ev)
       = (s\<lparr>key := ''?'', capNext := False, barcode := barcode s @ ''?'',
             timeout := now + timerDuration\<rparr>, [])
   \<and> (\<exists>rest. snd (processEvents KEY s ((now, Event ev) # events evs @ [(t, Expired)]))
               = [barcode s @ ''?'' @ rest])"
proof -
  let ?s1 = "s\<lparr>key := ''?'', capNext := False, barcode := barcode s @ ''?'',
               timeout := now + timerDuration\<rparr>"
  have k: "symbolicKey KEY ev = ''?''" using assms(2) by (simp add: symbolicKey_def)
  have st: "selectCase KEY now s (Event ev) = (?s1, [])"
    using assms(1) k by (simp add: selectCase_down processCharacter_placeholder)
  obtain s2 where s2: "processEvents KEY ?s1 (events evs) = (s2, [])"
    using processEvents_events_out[of KEY ?s1 evs]
    by (cases "processEvents KEY ?s1 (events evs)") simp
  from processEvents_events_barcode[of KEY ?s1 evs] s2
  obtain rest where rest: "barcode s2 = (barcode s @ ''?'') @ rest" by auto
  have mid: "processEvents KEY s ((now, Event ev) # events evs) = (s2, [])"
    using st s2 by simp
  have "processEvents KEY s (((now, Event ev) # events evs) @ [(t, Expired)])
          = (s2\<lparr>capNext := False, barcode := []\<rparr>, [barcode s2])"
    unfolding then_Expired mid using rest by simp
  with rest have "snd (processEvents KEY s ((now, Event ev) # events evs @ [(t, Expired)]))
               = [barcode s @ ''?'' @ rest]" by simp
  with k st processCharacter_placeholder[of c] show ?thesis by blast
qed

theorem unmapped_code_placeholder_witness:
  "isKeyDown (keyDown 999) \<and> KEY_excerpt (uint (Code (keyDown 999))) = None
   \<and> selectCase KEY_excerpt 21000000
        \<lparr>barcode = ''a'', capNext = False, key = ''a'', timeout = 30000000\<rparr> (Event (keyDown 999))
      = (\<lparr>barcode = ''a?'', capNext = False, key = ''?'', timeout = 31000000\<rparr>, [])
   \<and> snd (processEvents KEY_excerpt (initial 10000000)
        [(20000000, Event (keyDown 30)), (21000000, Event (keyDown 999)),
         (22000000, Event (keyDown 48)), (32000000, Expired)]) = [''a?b'']"
proof -
  have r: "snd (processEvents KEY_excerpt (initial 10000000)
        [(20000000, Event (keyDown 30)), (21000000, Event (keyDown 999)),
         (22000000, Event (keyDown 48)), (32000000, Expired)]) = [''a?b'']"
    by code_simp
  let ?s = "\<lparr>barcode = ''a'', capNext = False, key = ''a'', timeout = 30000000\<rparr>"
  have d: "isKeyDown (keyDown 999)" by (rule isKeyDown_samples)
  have n: "KEY_excerpt (uint (Code (keyDown 999))) = None"
    by (simp add: Code_samples KEY_excerpt_samples)
  have t: "21000000 + timerDuration = 31000000" by (simp add: timerDuration_def Millisecond_def)
  from unmapped_code_placeholder[of "keyDown 999" KEY_excerpt False 21000000 ?s "[]" 0] d n
  have "selectCase KEY_excerpt 21000000 ?s (Event (keyDown 999))
       = (?s\<lparr>key := ''?'', capNext := False, barcode := barcode ?s @ ''?'',
             timeout := 21000000 + timerDuration\<rparr>, [])" by blast
  with d n t r show ?thesis by (simp del: processEvents.simps)
qed

text \<open>
  C4. A shift key-down capitalises the one character that follows and no more. From the
  initial state the key-downs \<open>LEFTSHIFT\<close>, \<open>KEY_H\<close>, \<open>KEY_I\<close> build the buffer \<open>Hi\<close>:
  the flag is false before the shift, true after it (when \<open>H\<close> is processed) and false
  after \<open>H\<close> and after \<open>I\<close>. The shift itself appends the empty string, and the timer
  then sends \<open>Hi\<close>.
\<close>

theorem shift_capitalizes_one:
  assumes "isKeyDown eS" and "symbolicKey KEY eS = ''KEY_LEFTSHIFT''"
    and "isKeyDown eH" and "symbolicKey KEY eH = ''KEY_H''"
    and "isKeyDown eI" and "symbolicKey KEY eI = ''KEY_I''"
  shows "capNext (initial d) = False
   \<and> processEvents KEY (initial d) [(t1, Event eS)]
       = (\<lparr>barcode = [], capNext = True, key = [], timeout = t1 + timerDuration\<rparr>, [])
   \<and> processEvents KEY (initial d) [(t1, Event eS), (t2, Event eH)]
       = (\<lparr>barcode = ''H'', capNext = False, key = ''H'', timeout = t2 + timerDuration\<rparr>, [])
   \<and> processEvents KEY (initial d) [(t1, Event eS), (t2, Event eH), (t3, Event eI)]
       = (\<lparr>barcode = ''Hi'', capNext = False, key = ''i'', timeout = t3 + timerDuration\<rparr>, [])
   \<and> processEvents KEY (initial d) [(t1, Event eS), (t2, Event eH), (t3, Event eI), (t4, Expired)]
       = (\<lparr>barcode = [], capNext = False, key = ''i'', timeout = t3 + timerDuration\<rparr>, [''Hi''])
   \<and> fst (processCharacter ''KEY_LEFTSHIFT'' c) = []
   \<and> fst (processCharacter ''KEY_RIGHTSHIFT'' c) = []"
  using assms
  by (simp add: initial_def selectCase_down selectCase_expired processCharacter_samples
      processCharacter_shift_samples)

theorem shift_capitalizes_one_witness:
  "isKeyDown (keyDown 42) \<and> symbolicKey KEY_excerpt (keyDown 42) = ''KEY_LEFTSHIFT''
   \<and> isKeyDown (keyDown 35) \<and> symbolicKey KEY_excerpt (keyDown 35) = ''KEY_H''
   \<and> isKeyDown (keyDown 23) \<and> symbolicKey KEY_excerpt (keyDown 23) = ''KEY_I''
   \<and> processEvents KEY_excerpt (initial 10000000)
        [(20000000, Event (keyDown 42)), (21000000, Event (keyDown 35)),
         (22000000, Event (keyDown 23)), (32000000, Expired)]
       = (\<lparr>barcode = [], capNext = False, key = ''i'', timeout = 32000000\<rparr>, [''Hi''])"
proof -
  note h = isKeyDown_samples(1)[of 42] symbolicKey_samples(6)
    isKeyDown_samples(1)[of 35] symbolicKey_samples(5)
    isKeyDown_samples(1)[of 23] symbolicKey_samples(2)
  have t: "22000000 + timerDuration = 32000000" by (simp add: timerDuration_def Millisecond_def)
  from shift_capitalizes_one[OF h, of 10000000 20000000 21000000 22000000 32000000 False]
  have "processEvents KEY_excerpt (initial 10000000)
        [(20000000, Event (keyDown 42)), (21000000, Event (keyDown 35)),
         (22000000, Event (keyDown 23)), (32000000, Expired)]
       = (\<lparr>barcode = [], capNext = False, key = ''i'', timeout = 22000000 + timerDuration\<rparr>, [''Hi''])"
    by blast
  with h t show ?thesis by (simp del: processEvents.simps)
qed

text \<open>
  C7. For a key that is not a shift key, \<open>processCharacter\<close> returns the substitution
  table applied to the bare token (the name without \<open>KEY_\<close>, in lower case unless
  \<open>capNext\<close> is set): the seven tokens of the table become their literal characters, any
  other token is returned as it is. So \<open>KEY_SEMICOLON\<close> gives \<open>;\<close> without \<open>capNext\<close> and
  \<open>:\<close> with it, and the key-downs \<open>KEY_A\<close>, \<open>KEY_MINUS\<close>, \<open>KEY_B\<close> give the barcode \<open>a-b\<close>.
\<close>

theorem substitution_table_applied:
  "(\<not> isShift k \<longrightarrow> processCharacter k c = (substitute (bareToken k c), False))
   \<and> substitute ''space'' = '' '' \<and> substitute ''slash'' = ''/''
   \<and> substitute ''minus'' = ''-'' \<and> substitute ''dot'' = ''.''
   \<and> substitute ''comma'' = '','' \<and> substitute ''semicolon'' = '';''
   \<and> substitute ''SEMICOLON'' = '':''
   \<and> (tok \<notin> {''space'', ''slash'', ''minus'', ''dot'', ''comma'', ''semicolon'', ''SEMICOLON''}
        \<longrightarrow> substitute tok = tok)
   \<and> (\<not> isShift k
        \<and> bareToken k c \<notin> {''space'', ''slash'', ''minus'', ''dot'', ''comma'', ''semicolon'',
                             ''SEMICOLON''}
        \<longrightarrow> fst (processCharacter k c) = bareToken k c)
   \<and> processCharacter ''KEY_SPACE'' False = ('' '', False)
   \<and> processCharacter ''KEY_SLASH'' False = (''/'', False)
   \<and> processCharacter ''KEY_MINUS'' False = (''-'', False)
   \<and> processCharacter ''KEY_DOT'' False = (''.'', False)
   \<and> processCharacter ''KEY_COMMA'' False = ('','', False)
   \<and> processCharacter ''KEY_SEMICOLON'' False = ('';'', False)
   \<and> processCharacter ''KEY_SEMICOLON'' True = ('':'', False)
   \<and> (isKeyDown eA \<and> symbolicKey KEY eA = ''KEY_A''
        \<and> isKeyDown eM \<and> symbolicKey KEY eM = ''KEY_MINUS''
        \<and> isKeyDown eB \<and> symbolicKey KEY eB = ''KEY_B'' \<longrightarrow>
        snd (processEvents KEY (initial d)
               [(t1, Event eA), (t2, Event eM), (t3, Event eB), (t4, Expired)]) = [''a-b''])"
proof -
  have gen: "processCharacter k c = (substitute (bareToken k c), False)" if "\<not> isShift k"
    using that by (simp add: processCharacter_plain keySwitch_substitute)
  have tab: "substitute ''space'' = '' ''" "substitute ''slash'' = ''/''"
    "substitute ''minus'' = ''-''" "substitute ''dot'' = ''.''"
    "substitute ''comma'' = '',''" "substitute ''semicolon'' = '';''"
    "substitute ''SEMICOLON'' = '':''"
    by (simp_all add: substitute_def substitutionTable_def)
  have other: "substitute tok' = tok'"
    if "tok' \<notin> {''space'', ''slash'', ''minus'', ''dot'', ''comma'', ''semicolon'', ''SEMICOLON''}"
    for tok'
    using that by (simp add: substitute_def substitutionTable_def)
  have keys: "processCharacter ''KEY_SPACE'' False = ('' '', False)"
    "processCharacter ''KEY_SLASH'' False = (''/'', False)"
    "processCharacter ''KEY_DOT'' False = (''.'', False)"
    "processCharacter ''KEY_COMMA'' False = ('','', False)"
    "processCharacter ''KEY_SEMICOLON'' False = ('';'', False)"
    "processCharacter ''KEY_SEMICOLON'' True = ('':'', False)"
    by code_simp+
  have run: "snd (processEvents KEY (initial d)
               [(t1, Event eA), (t2, Event eM), (t3, Event eB), (t4, Expired)]) = [''a-b'']"
    if "isKeyDown eA" "symbolicKey KEY eA = ''KEY_A''"
       "isKeyDown eM" "symbolicKey KEY eM = ''KEY_MINUS''"
       "isKeyDown eB" "symbolicKey KEY eB = ''KEY_B''"
    using that
    by (simp add: initial_def selectCase_down selectCase_expired processCharacter_samples)
  have pass: "fst (processCharacter k c) = bareToken k c"
    if "\<not> isShift k"
      "bareToken k c \<notin> {''space'', ''slash'', ''minus'', ''dot'', ''comma'', ''semicolon'',
                             ''SEMICOLON''}"
    using gen[OF that(1)] other[OF that(2)] by simp
  from gen tab other[of tok] pass keys processCharacter_samples(6) run show ?thesis
    by blast
qed

theorem substitution_table_applied_witness:
  "\<not> isShift ''KEY_MINUS''
   \<and> processCharacter ''KEY_MINUS'' True = (substitute (bareToken ''KEY_MINUS'' True), False)
   \<and> ''MINUS'' \<notin> {''space'', ''slash'', ''minus'', ''dot'', ''comma'', ''semicolon'', ''SEMICOLON''}
   \<and> bareToken ''KEY_MINUS'' True = ''MINUS''
   \<and> fst (processCharacter ''KEY_MINUS'' True) = ''MINUS''
   \<and> isKeyDown (keyDown 30) \<and> symbolicKey KEY_excerpt (keyDown 30) = ''KEY_A''
   \<and> isKeyDown (keyDown 12) \<and> symbolicKey KEY_excerpt (keyDown 12) = ''KEY_MINUS''
   \<and> isKeyDown (keyDown 48) \<and> symbolicKey KEY_excerpt (keyDown 48) = ''KEY_B''
   \<and> snd (processEvents KEY_excerpt (initial 10000000)
        [(20000000, Event (keyDown 30)), (21000000, Event (keyDown 12)),
         (22000000, Event (keyDown 48)), (32000000, Expired)]) = [''a-b'']"
proof -
  have n: "\<not> isShift ''KEY_MINUS''" by (rule isShift_samples)
  have b: "bareToken ''KEY_MINUS'' True = ''MINUS''" by code_simp
  have m: "''MINUS'' \<notin> {''space'', ''slash'', ''minus'', ''dot'', ''comma'', ''semicolon'',
     ''SEMICOLON''}" by simp
  note h = isKeyDown_samples(1)[of 30] symbolicKey_samples(4)
    isKeyDown_samples(1)[of 12] symbolicKey_samples(1)
    isKeyDown_samples(1)[of 48] symbolicKey_samples(7)
  note inst = substitution_table_applied[of "''KEY_MINUS''" True "''MINUS''"
      "keyDown 30" KEY_excerpt "keyDown 12" "keyDown 48" 10000000 20000000 21000000 22000000 32000000]
  from inst n have 1: "processCharacter ''KEY_MINUS'' True
      = (substitute (bareToken ''KEY_MINUS'' True), False)" by blast
  from inst n m b have 2: "fst (processCharacter ''KEY_MINUS'' True) = ''MINUS''" by simp
  from inst h have 3: "snd (processEvents KEY_excerpt (initial 10000000)
        [(20000000, Event (keyDown 30)), (21000000, Event (keyDown 12)),
         (22000000, Event (keyDown 48)), (32000000, Expired)]) = [''a-b'']" by blast
  from n b m h 1 2 3 show ?thesis by blast
qed

text \<open>
  C10. A key that is not a shift key and whose bare token is not in the substitution
  table has the whole token appended to the buffer, however long it is: \<open>KEY_ENTER\<close>
  appends the five characters \<open>enter\<close>, and they are sent as the barcode.
\<close>

theorem multi_character_token:
  "(isKeyDown ev \<and> \<not> isShift (symbolicKey KEY ev)
     \<and> bareToken (symbolicKey KEY ev) (capNext s)
         \<notin> {''space'', ''slash'', ''minus'', ''dot'', ''comma'', ''semicolon'', ''SEMICOLON''}
     \<longrightarrow> barcode (fst (selectCase KEY now s (Event ev)))
           = barcode s @ bareToken (symbolicKey KEY ev) (capNext s))
   \<and> bareToken ''KEY_ENTER'' False = ''enter''
   \<and> (isKeyDown ev \<and> symbolicKey KEY ev = ''KEY_ENTER'' \<and> \<not> capNext s \<longrightarrow>
        barcode (fst (selectCase KEY now s (Event ev))) = barcode s @ ''enter''
        \<and> length (barcode (fst (selectCase KEY now s (Event ev)))) = length (barcode s) + 5)
   \<and> (isKeyDown ev \<and> symbolicKey KEY ev = ''KEY_ENTER'' \<longrightarrow>
        snd (processEvents KEY (initial d) [(now, Event ev), (t, Expired)]) = [''enter''])"
proof -
  have app: "barcode (fst (selectCase KEY now s (Event ev)))
           = barcode s @ bareToken (symbolicKey KEY ev) (capNext s)"
    if "isKeyDown ev" "\<not> isShift (symbolicKey KEY ev)"
      "bareToken (symbolicKey KEY ev) (capNext s)
         \<notin> {''space'', ''slash'', ''minus'', ''dot'', ''comma'', ''semicolon'', ''SEMICOLON''}"
    using that by (simp add: selectCase_down processCharacter_plain keySwitch_def)
  have tok: "bareToken ''KEY_ENTER'' False = ''enter''" by code_simp
  have one: "barcode (fst (selectCase KEY now s (Event ev))) = barcode s @ ''enter''
        \<and> length (barcode (fst (selectCase KEY now s (Event ev)))) = length (barcode s) + 5"
    if "isKeyDown ev" "symbolicKey KEY ev = ''KEY_ENTER''" "\<not> capNext s"
    using that by (simp add: selectCase_down processCharacter_samples)
  have run: "snd (processEvents KEY (initial d) [(now, Event ev), (t, Expired)]) = [''enter'']"
    if "isKeyDown ev" "symbolicKey KEY ev = ''KEY_ENTER''"
    using that
    by (simp add: initial_def selectCase_down selectCase_expired processCharacter_samples)
  from app tok one run show ?thesis by blast
qed

theorem multi_character_token_witness:
  "isKeyDown (keyDown 28) \<and> symbolicKey KEY_excerpt (keyDown 28) = ''KEY_ENTER''
   \<and> \<not> isShift ''KEY_ENTER''
   \<and> ''enter'' \<notin> {''space'', ''slash'', ''minus'', ''dot'', ''comma'', ''semicolon'', ''SEMICOLON''}
   \<and> barcode (fst (selectCase KEY_excerpt 21000000
        \<lparr>barcode = ''a'', capNext = False, key = ''a'', timeout = 30000000\<rparr> (Event (keyDown 28))))
       = ''aenter''
   \<and> snd (processEvents KEY_excerpt (initial 10000000)
        [(20000000, Event (keyDown 28)), (30000000, Expired)]) = [''enter'']"
proof -
  let ?s = "\<lparr>barcode = ''a'', capNext = False, key = ''a'', timeout = 30000000\<rparr>"
  have d: "isKeyDown (keyDown 28)" by (rule isKeyDown_samples)
  have k: "symbolicKey KEY_excerpt (keyDown 28) = ''KEY_ENTER''" by (rule symbolicKey_samples)
  have n: "\<not> isShift ''KEY_ENTER''" by (rule isShift_samples)
  have m: "''enter'' \<notin> {''space'', ''slash'', ''minus'', ''dot'', ''comma'', ''semicolon'',
     ''SEMICOLON''}" by simp
  note inst = multi_character_token[of "keyDown 28" KEY_excerpt ?s 21000000 10000000 30000000]
  from inst have b: "bareToken ''KEY_ENTER'' False = ''enter''" by blast
  from inst d k n m b have 1: "barcode (fst (selectCase KEY_excerpt 21000000 ?s (Event (keyDown 28))))
       = ''aenter''" by simp
  note inst2 = multi_character_token[of "keyDown 28" KEY_excerpt ?s 20000000 10000000 30000000]
  from inst2 d k have 2: "snd (processEvents KEY_excerpt (initial 10000000)
        [(20000000, Event (keyDown 28)), (30000000, Expired)]) = [''enter'']" by blast
  from d k n m 1 2 show ?thesis by blast
qed

section \<open>Scans without a shift key\<close>

lemma ToLower_Nil: "ToLower [] = []"
  by (simp add: ToLower_def)

lemma baseCharacter_lower: "ToLower (baseCharacter k) = baseCharacter k"
  by (simp add: baseCharacter_def ToLower_substitute)

lemma processCharacter_base:
  "\<not> isShift k \<Longrightarrow> processCharacter k False = (baseCharacter k, False)"
  by (simp add: processCharacter_plain keySwitch_substitute bareToken_def baseCharacter_def)

lemma processEvents_plain_keys:
  assumes "\<And>t ev. (t, ev) \<in> set evs \<Longrightarrow> isKeyDown ev \<and> \<not> isShift (symbolicKey KEY ev)"
    and "\<not> capNext s"
  shows "snd (processEvents KEY s (events evs)) = []
    \<and> \<not> capNext (fst (processEvents KEY s (events evs)))
    \<and> barcode (fst (processEvents KEY s (events evs)))
        = barcode s @ concat (map (\<lambda>(t, ev). baseCharacter (symbolicKey KEY ev)) evs)"
  using assms
proof (induction evs arbitrary: s)
  case Nil
  then show ?case by (simp add: events_Nil)
next
  case (Cons x evs)
  obtain t ev where x: "x = (t, ev)" by (cases x)
  have "(t, ev) \<in> set (x # evs)" using x by simp
  then have dn: "isKeyDown ev" and ns: "\<not> isShift (symbolicKey KEY ev)"
    using Cons.prems(1) by blast+
  let ?s1 = "s\<lparr>key := baseCharacter (symbolicKey KEY ev), capNext := False,
                barcode := barcode s @ baseCharacter (symbolicKey KEY ev),
                timeout := t + timerDuration\<rparr>"
  have st: "selectCase KEY t s (Event ev) = (?s1, [])"
    using dn ns Cons.prems(2) by (simp add: selectCase_down processCharacter_base)
  have rest: "isKeyDown ev' \<and> \<not> isShift (symbolicKey KEY ev')" if "(t', ev') \<in> set evs" for t' ev'
  proof -
    from that have "(t', ev') \<in> set (x # evs)" by simp
    then show ?thesis by (rule Cons.prems(1))
  qed
  have ih: "snd (processEvents KEY ?s1 (events evs)) = []
    \<and> \<not> capNext (fst (processEvents KEY ?s1 (events evs)))
    \<and> barcode (fst (processEvents KEY ?s1 (events evs)))
        = barcode ?s1 @ concat (map (\<lambda>(t, ev). baseCharacter (symbolicKey KEY ev)) evs)"
    by (rule Cons.IH) (use rest in simp_all)
  have step: "processEvents KEY s (events (x # evs))
      = (fst (processEvents KEY ?s1 (events evs)), snd (processEvents KEY ?s1 (events evs)))"
    using x st by (simp add: events_Cons split: prod.splits)
  from ih show ?case unfolding step using x by simp
qed

text \<open>
  C1. Take key-down events whose keys are not shift keys, received when the buffer is
  empty and \<open>capNext\<close> is false. What the timer then sends is the lower-cased
  concatenation, in the order of the events, of each key's base character; when that
  string is empty nothing is sent. The names of the key table are ASCII.
\<close>

theorem barcode_without_shift:
  assumes "\<And>c v. KEY c = Some v \<Longrightarrow> isASCII v"
    and "\<And>t ev. (t, ev) \<in> set evs \<Longrightarrow> isKeyDown ev \<and> \<not> isShift (symbolicKey KEY ev)"
    and "barcode s = []" and "\<not> capNext s"
  shows "snd (processEvents KEY s (events evs @ [(t', Expired)]))
    = (let b = ToLower (concat (map (\<lambda>(t, ev). baseCharacter (symbolicKey KEY ev)) evs))
       in if b = [] then [] else [b])"
proof -
  let ?cs = "map (\<lambda>(t, ev). baseCharacter (symbolicKey KEY ev)) evs"
  obtain s1 out where run: "processEvents KEY s (events evs) = (s1, out)"
    by (cases "processEvents KEY s (events evs)")
  from processEvents_plain_keys[of evs KEY s, OF assms(2) assms(4)] run assms(3)
  have out: "out = []" and buf: "barcode s1 = concat ?cs" by simp_all
  have low: "ToLower (concat ?cs) = concat ?cs"
    by (induction evs) (auto simp: ToLower_Nil ToLower_append baseCharacter_lower)
  show ?thesis
    unfolding then_Expired run low using out buf by (simp add: Let_def)
qed

lemma KEY_excerpt_ASCII: "KEY_excerpt c = Some v \<Longrightarrow> isASCII v"
  by (auto simp: KEY_excerpt_def isASCII_def split: if_splits)

theorem barcode_without_shift_witness:
  "barcode (initial 10000000) = [] \<and> \<not> capNext (initial 10000000)
   \<and> isKeyDown (keyDown 35) \<and> \<not> isShift (symbolicKey KEY_excerpt (keyDown 35))
   \<and> isKeyDown (keyDown 18) \<and> \<not> isShift (symbolicKey KEY_excerpt (keyDown 18))
   \<and> isKeyDown (keyDown 38) \<and> \<not> isShift (symbolicKey KEY_excerpt (keyDown 38))
   \<and> isKeyDown (keyDown 24) \<and> \<not> isShift (symbolicKey KEY_excerpt (keyDown 24))
   \<and> isKeyDown (keyDown 999) \<and> \<not> isShift (symbolicKey KEY_excerpt (keyDown 999))
   \<and> snd (processEvents KEY_excerpt (initial 10000000)
        (events [(20000000, keyDown 35), (21000000, keyDown 18), (22000000, keyDown 38),
                 (23000000, keyDown 38), (24000000, keyDown 24), (25000000, keyDown 999)]
         @ [(35000000, Expired)])) = [''hello?'']"
proof -
  let ?evs = "[(20000000, keyDown 35), (21000000, keyDown 18), (22000000, keyDown 38),
                 (23000000, keyDown 38), (24000000, keyDown 24), (25000000, keyDown 999)]"
  have b: "barcode (initial 10000000) = []" and c: "\<not> capNext (initial 10000000)"
    by (simp_all add: initial_def)
  have ks: "\<not> isShift (symbolicKey KEY_excerpt (keyDown 35))"
    "\<not> isShift (symbolicKey KEY_excerpt (keyDown 18))"
    "\<not> isShift (symbolicKey KEY_excerpt (keyDown 38))"
    "\<not> isShift (symbolicKey KEY_excerpt (keyDown 24))"
    "\<not> isShift (symbolicKey KEY_excerpt (keyDown 999))"
    by code_simp+
  have k: "isKeyDown ev \<and> \<not> isShift (symbolicKey KEY_excerpt ev)"
    if "(t, ev) \<in> set ?evs" for t :: int and ev
    using that ks by (auto simp: isKeyDown_samples)
  have bc: "baseCharacter (symbolicKey KEY_excerpt (keyDown 35)) = ''h''"
    "baseCharacter (symbolicKey KEY_excerpt (keyDown 18)) = ''e''"
    "baseCharacter (symbolicKey KEY_excerpt (keyDown 38)) = ''l''"
    "baseCharacter (symbolicKey KEY_excerpt (keyDown 24)) = ''o''"
    "baseCharacter (symbolicKey KEY_excerpt (keyDown 999)) = ''?''"
    by code_simp+
  have low: "ToLower ''hello?'' = ''hello?''" by code_simp
  have v: "(let b = ToLower (concat (map (\<lambda>(t, ev). baseCharacter (symbolicKey KEY_excerpt ev)) ?evs))
       in if b = [] then [] else [b]) = [''hello?'']"
    by (simp add: bc low)
  from barcode_without_shift[of KEY_excerpt ?evs "initial 10000000" 35000000,
      OF KEY_excerpt_ASCII k b c] v
  have "snd (processEvents KEY_excerpt (initial 10000000) (events ?evs @ [(35000000, Expired)]))
      = [''hello?'']" by simp
  with b c ks isKeyDown_samples(1) show ?thesis by blast
qed

section \<open>What a run depends on\<close>

lemma selectCase_same:
  assumes "barcode s = barcode s'" and "capNext s = capNext s'"
  shows "snd (selectCase KEY t s r) = snd (selectCase KEY t' s' r)
    \<and> barcode (fst (selectCase KEY t s r)) = barcode (fst (selectCase KEY t' s' r))
    \<and> capNext (fst (selectCase KEY t s r)) = capNext (fst (selectCase KEY t' s' r))"
proof (cases r)
  case (Event ev)
  then show ?thesis using assms
    by (cases "isKeyDown ev")
       (simp_all add: selectCase_down selectCase_other split: prod.splits)
next
  case Expired
  then show ?thesis using assms by (simp add: selectCase_expired)
qed

lemma processEvents_same:
  assumes "map snd rs = map snd rs'" and "barcode s = barcode s'" and "capNext s = capNext s'"
  shows "snd (processEvents KEY s rs) = snd (processEvents KEY s' rs')
    \<and> barcode (fst (processEvents KEY s rs)) = barcode (fst (processEvents KEY s' rs'))
    \<and> capNext (fst (processEvents KEY s rs)) = capNext (fst (processEvents KEY s' rs'))"
  using assms
proof (induction rs arbitrary: rs' s s')
  case Nil
  then show ?case by simp
next
  case (Cons x rs)
  obtain t r where x: "x = (t, r)" by (cases x)
  from Cons.prems(1) x obtain t' rs2 where rs': "rs' = (t', r) # rs2" and tl: "map snd rs = map snd rs2"
    by (cases rs') auto
  let ?a = "selectCase KEY t s r" and ?b = "selectCase KEY t' s' r"
  from selectCase_same[OF Cons.prems(2) Cons.prems(3), of KEY t r t']
  have o: "snd ?a = snd ?b" and b: "barcode (fst ?a) = barcode (fst ?b)"
    and c: "capNext (fst ?a) = capNext (fst ?b)" by simp_all
  note ih = Cons.IH[OF tl b c]
  have l: "processEvents KEY s (x # rs)
      = (fst (processEvents KEY (fst ?a) rs), snd ?a @ snd (processEvents KEY (fst ?a) rs))"
    using x by (simp split: prod.splits)
  have r: "processEvents KEY s' rs'
      = (fst (processEvents KEY (fst ?b) rs2), snd ?b @ snd (processEvents KEY (fst ?b) rs2))"
    using rs' by (simp split: prod.splits)
  show ?case unfolding l r using ih o by simp
qed

lemma map_snd_events: "map snd (events evs) = map Event (map snd evs)"
  by (induction evs) (auto simp: events_def)

text \<open>
  C8. When a sequence of events followed by the firing of the timer sends a barcode
  from the initial state, the state it leaves has an empty buffer and \<open>capNext\<close> false,
  and the same events received again, at whatever instants, followed by the firing of
  the timer send the same barcode. From that state every run sends what it sends from
  an initial state.
\<close>

theorem scans_independent:
  assumes "map snd evs2 = map snd evs1"
    and "processEvents KEY (initial d) (events evs1 @ [(t1, Expired)]) = (s1, [b])"
  shows "barcode s1 = [] \<and> capNext s1 = False
    \<and> snd (processEvents KEY s1 (events evs2 @ [(t2, Expired)])) = [b]
    \<and> (\<forall>rs rs'. map snd rs = map snd rs' \<longrightarrow>
          snd (processEvents KEY s1 rs) = snd (processEvents KEY (initial d') rs'))"
proof -
  obtain s0 out where run: "processEvents KEY (initial d) (events evs1) = (s0, out)"
    by (cases "processEvents KEY (initial d) (events evs1)")
  from processEvents_events_out[of KEY "initial d" evs1] run have "out = []" by simp
  with assms(2) have post: "barcode s1 = []" "capNext s1 = False"
    unfolding then_Expired run by (auto split: if_splits)
  have like: "snd (processEvents KEY s1 rs) = snd (processEvents KEY (initial d'') rs')"
    if "map snd rs = map snd rs'" for rs rs' d''
    using processEvents_same[OF that, of s1 "initial d''" KEY] post by (simp add: initial_def)
  have "map snd (events evs2 @ [(t2, Expired)]) = map snd (events evs1 @ [(t1, Expired)])"
    using assms(1) by (simp add: map_snd_events)
  from like[OF this, of d] assms(2)
  have again: "snd (processEvents KEY s1 (events evs2 @ [(t2, Expired)])) = [b]" by simp
  from post again like[of _ _ d'] show ?thesis by blast
qed

theorem scans_independent_witness:
  "map snd [(100000000 :: int, keyDown 42), (101000000, keyDown 35), (102000000, keyDown 23)]
     = map snd [(20000000 :: int, keyDown 42), (21000000, keyDown 35), (22000000, keyDown 23)]
   \<and> processEvents KEY_excerpt (initial 10000000)
        (events [(20000000, keyDown 42), (21000000, keyDown 35), (22000000, keyDown 23)]
         @ [(32000000, Expired)])
      = (\<lparr>barcode = [], capNext = False, key = ''i'', timeout = 32000000\<rparr>, [''Hi''])
   \<and> snd (processEvents KEY_excerpt
             \<lparr>barcode = [], capNext = False, key = ''i'', timeout = 32000000\<rparr>
             (events [(100000000, keyDown 42), (101000000, keyDown 35), (102000000, keyDown 23)]
              @ [(112000000, Expired)])) = [''Hi'']"
proof -
  let ?e1 = "[(20000000 :: int, keyDown 42), (21000000, keyDown 35), (22000000, keyDown 23)]"
  let ?e2 = "[(100000000 :: int, keyDown 42), (101000000, keyDown 35), (102000000, keyDown 23)]"
  let ?s1 = "\<lparr>barcode = [], capNext = False, key = ''i'', timeout = 32000000\<rparr>"
  have m: "map snd ?e2 = map snd ?e1" by simp
  have t: "22000000 + timerDuration = 32000000" by (simp add: timerDuration_def Millisecond_def)
  have f: "processEvents KEY_excerpt (initial 10000000) (events ?e1 @ [(32000000, Expired)])
      = (?s1, [''Hi''])"
    by (simp add: events_def initial_def selectCase_down selectCase_expired isKeyDown_samples
        symbolicKey_samples processCharacter_samples processCharacter_shift_samples t)
  from scans_independent[OF m f, of 112000000 0]
  have "snd (processEvents KEY_excerpt ?s1 (events ?e2 @ [(112000000, Expired)])) = [''Hi'']"
    by blast
  with m f show ?thesis by blast
qed

text \<open>
  C3, as stated: after a shift key-down followed at once by the firing of the timer,
  \<open>capNext\<close> is false and the first character of the next scan is not capitalised.
  From the initial state the buffer is empty when the timer fires, so the firing does
  nothing: \<open>capNext\<close> is still true, and the key-down of \<open>KEY_A\<close> that follows is sent
  as \<open>A\<close>.
\<close>

theorem shift_then_timer_counterexample:
  "capNext (fst (processEvents KEY_excerpt (initial 10000000)
      [(20000000, Event (keyDown 42)), (30000000, Expired)])) = True
   \<and> snd (processEvents KEY_excerpt (initial 10000000)
      [(20000000, Event (keyDown 42)), (30000000, Expired),
       (40000000, Event (keyDown 30)), (50000000, Expired)]) = [''A'']"
  by (simp add: initial_def selectCase_down selectCase_expired isKeyDown_samples
      symbolicKey_samples processCharacter_samples processCharacter_shift_samples)

text \<open>
  C3, amended: \<open>capNext\<close> is reset whenever a barcode is sent. After a shift key-down
  followed at once by the firing of the timer, with a buffer that is not empty, the
  buffer is sent, \<open>capNext\<close> is false, and the next key that is not a shift key appends
  its base character, in lower case. With an empty buffer the firing of the timer sends
  nothing and \<open>capNext\<close> stays true.
\<close>

theorem modifier_reset_on_emission:
  assumes "isKeyDown ev" and "isShift (symbolicKey KEY ev)"
  shows "(snd (selectCase KEY now s' Expired) \<noteq> [] \<longrightarrow>
            capNext (fst (selectCase KEY now s' Expired)) = False)
    \<and> capNext (fst (selectCase KEY t1 s (Event ev))) = True
    \<and> (barcode s \<noteq> [] \<longrightarrow>
         processEvents KEY s [(t1, Event ev), (t2, Expired)]
           = (s\<lparr>key := [], capNext := False, barcode := [], timeout := t1 + timerDuration\<rparr>,
              [barcode s]))
    \<and> (barcode s \<noteq> [] \<and> isKeyDown ev' \<and> \<not> isShift (symbolicKey KEY ev') \<longrightarrow>
         barcode (fst (processEvents KEY s [(t1, Event ev), (t2, Expired), (t3, Event ev')]))
           = baseCharacter (symbolicKey KEY ev'))
    \<and> (barcode s = [] \<longrightarrow>
         processEvents KEY s [(t1, Event ev), (t2, Expired)]
           = (s\<lparr>key := [], capNext := True, timeout := t1 + timerDuration\<rparr>, []))"
proof -
  let ?s1 = "s\<lparr>key := [], capNext := True, barcode := barcode s, timeout := t1 + timerDuration\<rparr>"
  have sh: "selectCase KEY t1 s (Event ev) = (?s1, [])"
    using assms by (simp add: selectCase_down processCharacter_shift)
  have a: "snd (selectCase KEY now s' Expired) \<noteq> [] \<longrightarrow>
            capNext (fst (selectCase KEY now s' Expired)) = False"
    by (simp add: selectCase_expired)
  have b: "capNext (fst (selectCase KEY t1 s (Event ev))) = True"
    using sh by simp
  have c: "processEvents KEY s [(t1, Event ev), (t2, Expired)]
           = (s\<lparr>key := [], capNext := False, barcode := [], timeout := t1 + timerDuration\<rparr>,
              [barcode s])" if "barcode s \<noteq> []"
    using that sh by (simp add: selectCase_expired)
  have d: "barcode (fst (processEvents KEY s [(t1, Event ev), (t2, Expired), (t3, Event ev')]))
           = baseCharacter (symbolicKey KEY ev')"
    if "barcode s \<noteq> []" "isKeyDown ev'" "\<not> isShift (symbolicKey KEY ev')"
    using that sh by (simp add: selectCase_expired selectCase_down processCharacter_base)
  have e: "processEvents KEY s [(t1, Event ev), (t2, Expired)]
           = (s\<lparr>key := [], capNext := True, timeout := t1 + timerDuration\<rparr>, [])"
    if "barcode s = []"
    using that sh by (simp add: selectCase_expired)
  from a b c d e show ?thesis by blast
qed

theorem modifier_reset_on_emission_witness:
  "isKeyDown (keyDown 42) \<and> isShift (symbolicKey KEY_excerpt (keyDown 42))
   \<and> isKeyDown (keyDown 30) \<and> \<not> isShift (symbolicKey KEY_excerpt (keyDown 30))
   \<and> barcode \<lparr>barcode = ''a'', capNext = False, key = ''a'', timeout = 30000000\<rparr> \<noteq> []
   \<and> processEvents KEY_excerpt \<lparr>barcode = ''a'', capNext = False, key = ''a'', timeout = 30000000\<rparr>
        [(21000000, Event (keyDown 42)), (31000000, Expired)]
      = (\<lparr>barcode = [], capNext = False, key = [], timeout = 31000000\<rparr>, [''a''])
   \<and> barcode (fst (processEvents KEY_excerpt
        \<lparr>barcode = ''a'', capNext = False, key = ''a'', timeout = 30000000\<rparr>
        [(21000000, Event (keyDown 42)), (31000000, Expired), (40000000, Event (keyDown 30))])) = ''a''
   \<and> barcode (initial 10000000) = []
   \<and> processEvents KEY_excerpt (initial 10000000) [(20000000, Event (keyDown 42)), (30000000, Expired)]
      = (\<lparr>barcode = [], capNext = True, key = [], timeout = 30000000\<rparr>, [])"
proof -
  let ?s = "\<lparr>barcode = ''a'', capNext = False, key = ''a'', timeout = 30000000\<rparr>"
  have d: "isKeyDown (keyDown 42)" and d': "isKeyDown (keyDown 30)"
    by (rule isKeyDown_samples)+
  have k: "isShift (symbolicKey KEY_excerpt (keyDown 42))"
    and k': "\<not> isShift (symbolicKey KEY_excerpt (keyDown 30))"
    by (simp_all add: symbolicKey_samples isShift_samples)
  have n: "barcode ?s \<noteq> []" by simp
  have e: "barcode (initial 10000000) = []" by (simp add: initial_def)
  have t: "21000000 + timerDuration = 31000000" "20000000 + timerDuration = 30000000"
    by (simp_all add: timerDuration_def Millisecond_def)
  have bc: "baseCharacter (symbolicKey KEY_excerpt (keyDown 30)) = ''a''" by code_simp
  note i1 = modifier_reset_on_emission[of "keyDown 42" KEY_excerpt 0 ?s 21000000 ?s 31000000
      "keyDown 30" 40000000, OF d k]
  note i2 = modifier_reset_on_emission[of "keyDown 42" KEY_excerpt 0 ?s 20000000
      "initial 10000000" 30000000 "keyDown 30" 40000000, OF d k]
  from i1 n have 1: "processEvents KEY_excerpt ?s [(21000000, Event (keyDown 42)), (31000000, Expired)]
      = (?s\<lparr>key := [], capNext := False, barcode := [], timeout := 21000000 + timerDuration\<rparr>,
         [barcode ?s])" by blast
  from i1 n d' k' have 2: "barcode (fst (processEvents KEY_excerpt ?s
        [(21000000, Event (keyDown 42)), (31000000, Expired), (40000000, Event (keyDown 30))]))
      = baseCharacter (symbolicKey KEY_excerpt (keyDown 30))" by blast
  from i2 e have 3: "processEvents KEY_excerpt (initial 10000000)
        [(20000000, Event (keyDown 42)), (30000000, Expired)]
      = ((initial 10000000)\<lparr>key := [], capNext := True, timeout := 20000000 + timerDuration\<rparr>, [])"
    by blast
  have r1: "processEvents KEY_excerpt ?s [(21000000, Event (keyDown 42)), (31000000, Expired)]
      = (\<lparr>barcode = [], capNext = False, key = [], timeout = 31000000\<rparr>, [''a''])"
    unfolding 1 t by simp
  have r3: "processEvents KEY_excerpt (initial 10000000)
        [(20000000, Event (keyDown 42)), (30000000, Expired)]
      = (\<lparr>barcode = [], capNext = True, key = [], timeout = 30000000\<rparr>, [])"
    unfolding 3 t by (simp add: initial_def)
  from d k d' k' n e r1 2[unfolded bc] r3 show ?thesis by blast
qed

end
